theory Spec2Isabelle
  imports Main "HOL-Library.Word"
begin

section \<open>Machine types\<close>

type_synonym byte = "8 word"

text \<open>\<^verbatim>\<open>std::size_t\<close> on the 64-bit targets of the repository: unsigned, wrapping.\<close>

type_synonym size_t = "64 word"

text \<open>
  Reading or writing outside an array, and \<^verbatim>\<open>pop()\<close> on an empty
  \<^verbatim>\<open>std::queue\<close>, are undefined behaviour in C++. The model makes them a value.
\<close>

datatype fault = Out_of_bounds | Pop_empty

section \<open>FixedPacket (fixed\_packet.hpp)\<close>

text \<open>
  \<^verbatim>\<open>template<std::size_t Capacity> class FixedPacket\<close> holds one
  \<^verbatim>\<open>std::array<uint8_t, Capacity> _buffer\<close>. The template parameter is the first
  argument of every operation below; \<^verbatim>\<open>static_assert(Capacity >= 3)\<close> is a
  hypothesis of the theorems on packets (those on the manager need only
  \<open>0 < Capacity\<close>).
\<close>

record FixedPacket =
  buffer :: "byte list"

definition HEAD_BYTE :: byte where
  "HEAD_BYTE = 0xff"

definition TAIL_BYTE :: byte where
  "TAIL_BYTE = 0x0d"

text \<open>The constructor: zero fill, then head and tail.\<close>

definition FixedPacket_new :: "nat \<Rightarrow> FixedPacket" where
  "FixedPacket_new Capacity =
     \<lparr>buffer = ((replicate Capacity 0)[0 := HEAD_BYTE])[Capacity - 1 := TAIL_BYTE]\<rparr>"

text \<open>\<^verbatim>\<open>copy_from(src)\<close>: \<^verbatim>\<open>memcpy\<close> of \<open>Capacity\<close> bytes from \<open>src\<close>.\<close>

definition copy_from :: "nat \<Rightarrow> byte list \<Rightarrow> FixedPacket \<Rightarrow> fault + FixedPacket" where
  "copy_from Capacity src p =
     (if Capacity \<le> length src \<and> Capacity \<le> length (buffer p)
      then Inr (p\<lparr>buffer := take Capacity src @ drop Capacity (buffer p)\<rparr>)
      else Inl Out_of_bounds)"

text \<open>
  \<^verbatim>\<open>load_data<T, DataLen>(data, index)\<close>. The value is its object representation
  \<open>data\<close> (\<^verbatim>\<open>sizeof(T)\<close> bytes), \<open>T_trivial\<close> is
  \<^verbatim>\<open>std::is_trivially_copyable_v<T>\<close>. The bounds check is computed in
  \<^verbatim>\<open>std::size_t\<close>, so \<open>index + DataLen\<close> wraps; the \<^verbatim>\<open>memcpy\<close> that
  follows writes \<open>DataLen\<close> bytes at \<open>_buffer.data() + index\<close>.
\<close>

definition load_data ::
  "nat \<Rightarrow> bool \<Rightarrow> nat \<Rightarrow> byte list \<Rightarrow> size_t \<Rightarrow> FixedPacket \<Rightarrow> fault + (bool option \<times> FixedPacket)" where
  "load_data Capacity T_trivial DataLen data index p =
     (if 0 < index \<and> index + of_nat DataLen < of_nat Capacity - 1 then
        if T_trivial then
          if DataLen \<le> length data \<and> unat index + DataLen \<le> length (buffer p)
          then Inr (Some True,
                 p\<lparr>buffer := take (unat index) (buffer p) @ take DataLen data
                              @ drop (unat index + DataLen) (buffer p)\<rparr>)
          else Inl Out_of_bounds
        else Inr (None, p)
      else Inr (None, p))"

text \<open>
  \<^verbatim>\<open>unload_data<T, DataLen>(data, index)\<close>: the same check, then \<open>DataLen\<close>
  bytes are copied from the buffer over the start of the output argument. The packet is
  \<^verbatim>\<open>const\<close>; the result carries the output argument.
\<close>

definition unload_data ::
  "nat \<Rightarrow> bool \<Rightarrow> nat \<Rightarrow> byte list \<Rightarrow> size_t \<Rightarrow> FixedPacket \<Rightarrow> fault + (bool option \<times> byte list)" where
  "unload_data Capacity T_trivial DataLen data index p =
     (if 0 < index \<and> index + of_nat DataLen < of_nat Capacity - 1 then
        if T_trivial then
          if DataLen \<le> length data \<and> unat index + DataLen \<le> length (buffer p)
          then Inr (Some True, take DataLen (drop (unat index) (buffer p)) @ drop DataLen data)
          else Inl Out_of_bounds
        else Inr (None, data)
      else Inr (None, data))"

definition is_valid :: "nat \<Rightarrow> FixedPacket \<Rightarrow> bool" where
  "is_valid Capacity p \<longleftrightarrow>
     buffer p ! 0 = HEAD_BYTE \<and> buffer p ! (Capacity - 1) = TAIL_BYTE"

section \<open>The transport boundary (protocol\_interface.hpp)\<close>

text \<open>
  \<^verbatim>\<open>ProtocolInterface\<close> is an abstract class; its implementations talk to a
  device. The manager's state records the calls made on it, oldest first, and what a
  call returned is an argument of the operation that makes it.
\<close>

datatype transport_call = Call_read | Call_write "byte list" | Call_close | Call_open

text \<open>
  \<^verbatim>\<open>read(buffer, len)\<close>: an exception, a return value below zero, or the
  bytes stored at the start of \<open>buffer\<close>, whose number is the return value
  (\<open>Read_bytes []\<close> is the return value 0).
\<close>

datatype read_result = Read_throws | Read_error | Read_bytes "byte list"

datatype write_result = Write_throws | Write_returns int

section \<open>TransceiverManager (transceiver\_manager.hpp)\<close>

datatype SendMode = FIFO | LATEST_ONLY | LIMITED_FIFO

text \<open>
  The fields of the class. \<open>_recv_buf_len\<close> is an \<^verbatim>\<open>int\<close> that starts at 0
  and is only ever set to 0, increased by a positive \<open>recv_len\<close> or set to a loop
  counter that starts at 0: a natural number (for the capacities the repository
  instantiates, 16, 32 and 64, no \<^verbatim>\<open>int\<close> involved comes near its range). The
  \<^verbatim>\<open>std::queue\<close> is a list with its front first. Threads and mutexes are not
  state: every operation below runs under the lock it takes.
\<close>

record TransceiverManager =
  transporter :: "transport_call list"
  tmp_buffer :: "byte list"
  recv_buffer :: "byte list"
  recv_buf_len :: nat
  use_realtime_send :: bool
  realtime_packets :: "FixedPacket list"
  use_realtime_read :: bool
  latest_packet :: "FixedPacket option"
  send_mode :: SendMode
  max_queue_size :: nat

text \<open>The constructor, for a transport that is not null.\<close>

definition TransceiverManager_new :: "nat \<Rightarrow> SendMode \<Rightarrow> nat \<Rightarrow> TransceiverManager" where
  "TransceiverManager_new Capacity mode max_size =
     \<lparr>transporter = [], tmp_buffer = replicate Capacity 0,
      recv_buffer = replicate (Capacity * 2) 0, recv_buf_len = 0,
      use_realtime_send = False, realtime_packets = [],
      use_realtime_read = False, latest_packet = None,
      send_mode = mode, max_queue_size = max_size\<rparr>"

text \<open>
  \<^verbatim>\<open>check_packet(buffer, recv_len)\<close>; \<open>buf\<close> is the memory from the pointer
  to the end of its array.
\<close>

definition check_packet :: "nat \<Rightarrow> byte list \<Rightarrow> nat \<Rightarrow> fault + bool" where
  "check_packet Capacity buf recv_len =
     (if recv_len \<noteq> Capacity then Inr False
      else if length buf < Capacity \<or> Capacity = 0 then Inl Out_of_bounds
      else if buf ! 0 \<noteq> HEAD_BYTE \<or> buf ! (Capacity - 1) \<noteq> TAIL_BYTE then Inr False
      else Inr True)"

text \<open>A call on the transport; \<^verbatim>\<open>close\<close> then \<^verbatim>\<open>open\<close>.\<close>

definition called :: "transport_call \<Rightarrow> TransceiverManager \<Rightarrow> TransceiverManager" where
  "called c st = st\<lparr>transporter := transporter st @ [c]\<rparr>"

definition reconnect :: "TransceiverManager \<Rightarrow> TransceiverManager" where
  "reconnect st = called Call_open (called Call_close st)"

subsection \<open>Sending\<close>

text \<open>
  \<^verbatim>\<open>simple_send_packet\<close>: one \<^verbatim>\<open>write\<close> of \<open>Capacity\<close> bytes; on any
  other byte count \<^verbatim>\<open>close\<close> then \<^verbatim>\<open>open\<close> (whose result is ignored,
  and whose exception would end in the same \<^verbatim>\<open>return false\<close>).
\<close>

definition simple_send_packet ::
  "nat \<Rightarrow> write_result \<Rightarrow> FixedPacket \<Rightarrow> TransceiverManager \<Rightarrow> bool \<times> TransceiverManager" where
  "simple_send_packet Capacity wr packet st =
     (let st1 = called (Call_write (take Capacity (buffer packet))) st
      in case wr of
           Write_throws \<Rightarrow> (False, st1)
         | Write_returns bytes_written \<Rightarrow>
             if bytes_written = int Capacity then (True, st1)
             else (False, reconnect st1))"

text \<open>\<^verbatim>\<open>std::queue::pop\<close>: undefined on an empty queue.\<close>

definition queue_pop :: "'a list \<Rightarrow> fault + 'a list" where
  "queue_pop q = (case q of [] \<Rightarrow> Inl Pop_empty | x # xs \<Rightarrow> Inr xs)"

text \<open>\<^verbatim>\<open>while (!q.empty()) q.pop();\<close>\<close>

fun pop_all :: "'a list \<Rightarrow> 'a list" where
  "pop_all [] = []"
| "pop_all (x # xs) = pop_all xs"

text \<open>
  \<^verbatim>\<open>send_packet\<close>. With the send thread on, the packet is queued under the send
  mode; otherwise it is written at once. (An allocation failure inside \<^verbatim>\<open>push\<close>
  is not modelled.)
\<close>

definition send_packet ::
  "nat \<Rightarrow> write_result \<Rightarrow> FixedPacket \<Rightarrow> TransceiverManager \<Rightarrow> fault + (bool \<times> TransceiverManager)" where
  "send_packet Capacity wr packet st =
     (if use_realtime_send st then
        (case send_mode st of
           LATEST_ONLY \<Rightarrow>
             Inr (True, st\<lparr>realtime_packets := pop_all (realtime_packets st) @ [packet]\<rparr>)
         | LIMITED_FIFO \<Rightarrow>
             if length (realtime_packets st) \<ge> max_queue_size st then
               (case queue_pop (realtime_packets st) of
                  Inl f \<Rightarrow> Inl f
                | Inr q \<Rightarrow> Inr (True, st\<lparr>realtime_packets := q @ [packet]\<rparr>))
             else Inr (True, st\<lparr>realtime_packets := realtime_packets st @ [packet]\<rparr>)
         | FIFO \<Rightarrow>
             Inr (True, st\<lparr>realtime_packets := realtime_packets st @ [packet]\<rparr>))
      else Inr (simple_send_packet Capacity wr packet st))"

text \<open>
  \<^verbatim>\<open>set_send_mode(mode, max_queue_size)\<close> brings a queue that is already filled
  under the new mode: \<open>LATEST_ONLY\<close> keeps the last packet, \<open>LIMITED_FIFO\<close> pops
  \<^verbatim>\<open>while (size() > max_queue_size)\<close>.
\<close>

fun pop_while_over :: "nat \<Rightarrow> 'a list \<Rightarrow> 'a list" where
  "pop_while_over n [] = []"
| "pop_while_over n (x # xs) = (if length (x # xs) > n then pop_while_over n xs else x # xs)"

definition set_send_mode :: "SendMode \<Rightarrow> nat \<Rightarrow> TransceiverManager \<Rightarrow> TransceiverManager" where
  "set_send_mode mode max_size st =
     (let st1 = st\<lparr>send_mode := mode, max_queue_size := max_size\<rparr>;
          st2 = (if mode = LATEST_ONLY \<and> realtime_packets st1 \<noteq> []
                 then st1\<lparr>realtime_packets :=
                        pop_all (realtime_packets st1) @ [last (realtime_packets st1)]\<rparr>
                 else st1)
      in if mode = LIMITED_FIFO \<and> length (realtime_packets st2) > max_queue_size st2
         then st2\<lparr>realtime_packets := pop_while_over (max_queue_size st2) (realtime_packets st2)\<rparr>
         else st2)"

subsection \<open>Receiving\<close>

text \<open>
  The compaction loop
  \<^verbatim>\<open>for (j = i + Capacity; j < _recv_buf_len; j++, k++) _recv_buffer[k] = _recv_buffer[j];\<close>
  on the array \<open>buf\<close> with live length \<open>len\<close>; it yields the array and \<open>k\<close>,
  the new live length.
\<close>

function shift_rest :: "nat \<Rightarrow> nat \<Rightarrow> nat \<Rightarrow> byte list \<Rightarrow> fault + (byte list \<times> nat)" where
  "shift_rest j k len buf =
     (if j < len then
        if j < length buf \<and> k < length buf
        then shift_rest (j + 1) (k + 1) len (buf[k := buf ! j])
        else Inl Out_of_bounds
      else Inr (buf, k))"
  by pat_completeness auto
termination
  by (relation "measure (\<lambda>(j, k, len, buf). len - j)") auto

text \<open>
  The scan loop \<^verbatim>\<open>for (i = 0; i + Capacity <= _recv_buf_len; i++)\<close>, from \<open>i\<close>
  on: the first window that passes \<^verbatim>\<open>check_packet\<close> is copied into the packet
  and the bytes after it are moved to the front.
\<close>

function scan_frames ::
  "nat \<Rightarrow> nat \<Rightarrow> FixedPacket \<Rightarrow> nat \<Rightarrow> byte list \<Rightarrow> fault + (bool \<times> FixedPacket \<times> byte list \<times> nat)" where
  "scan_frames Capacity i packet len buf =
     (if i + Capacity \<le> len then
        (case check_packet Capacity (drop i buf) Capacity of
           Inl f \<Rightarrow> Inl f
         | Inr True \<Rightarrow>
             (case copy_from Capacity (drop i buf) packet of
                Inl f \<Rightarrow> Inl f
              | Inr packet' \<Rightarrow>
                  (case shift_rest (i + Capacity) 0 len buf of
                     Inl f \<Rightarrow> Inl f
                   | Inr (buf', k) \<Rightarrow> Inr (True, packet', buf', k)))
         | Inr False \<Rightarrow> scan_frames Capacity (i + 1) packet len buf)
      else Inr (False, packet, buf, len))"
  by pat_completeness auto
termination
  by (relation "measure (\<lambda>(Capacity, i, packet, len, buf). len + 1 - (i + Capacity))") auto

text \<open>
  The overflow test and the \<^verbatim>\<open>memcpy\<close> that appends the \<open>recv_len\<close> bytes
  just read to the carry-over buffer.
\<close>

definition append_read :: "nat \<Rightarrow> nat \<Rightarrow> TransceiverManager \<Rightarrow> fault + TransceiverManager" where
  "append_read Capacity recv_len st =
     (let len0 = (if recv_buf_len st + recv_len > Capacity * 2 then 0 else recv_buf_len st)
      in if recv_len \<le> length (tmp_buffer st) \<and> len0 + recv_len \<le> length (recv_buffer st)
         then Inr (st\<lparr>recv_buffer := take len0 (recv_buffer st) @ take recv_len (tmp_buffer st)
                                         @ drop (len0 + recv_len) (recv_buffer st),
                       recv_buf_len := len0 + recv_len\<rparr>)
         else Inl Out_of_bounds)"

text \<open>The state once \<^verbatim>\<open>read\<close> has stored the bytes \<open>d\<close> in \<open>_tmp_buffer\<close>.\<close>

definition store_read :: "byte list \<Rightarrow> TransceiverManager \<Rightarrow> TransceiverManager" where
  "store_read d st = (called Call_read st)\<lparr>tmp_buffer := d @ drop (length d) (tmp_buffer st)\<rparr>"

text \<open>
  The branch of \<^verbatim>\<open>recv_packet\<close> for a read that is not one aligned frame:
  append, then scan.
\<close>

definition resync ::
  "nat \<Rightarrow> nat \<Rightarrow> FixedPacket \<Rightarrow> TransceiverManager
     \<Rightarrow> fault + (bool \<times> FixedPacket \<times> TransceiverManager)" where
  "resync Capacity recv_len packet st =
     (case append_read Capacity recv_len st of
        Inl f \<Rightarrow> Inl f
      | Inr st2 \<Rightarrow>
          (case scan_frames Capacity 0 packet (recv_buf_len st2) (recv_buffer st2) of
             Inl f \<Rightarrow> Inl f
           | Inr (ok, packet', buf', len') \<Rightarrow>
               Inr (ok, packet', st2\<lparr>recv_buffer := buf', recv_buf_len := len'\<rparr>)))"

text \<open>
  \<^verbatim>\<open>recv_packet(packet)\<close>: the result is the return value, the output argument
  and the manager's state. The transport is asked for at most \<open>Capacity\<close> bytes; one
  that stores more has written past \<open>_tmp_buffer\<close>.
\<close>

definition recv_packet ::
  "nat \<Rightarrow> read_result \<Rightarrow> FixedPacket \<Rightarrow> TransceiverManager
     \<Rightarrow> fault + (bool \<times> FixedPacket \<times> TransceiverManager)" where
  "recv_packet Capacity rd packet st =
     (case rd of
        Read_throws \<Rightarrow> Inr (False, packet, called Call_read st)
      | Read_error \<Rightarrow> Inr (False, packet, reconnect (called Call_read st))
      | Read_bytes d \<Rightarrow>
          if length d > Capacity \<or> length d > length (tmp_buffer st) then Inl Out_of_bounds
          else
            let st1 = store_read d st;
                recv_len = length d
            in if recv_len > 0 then
                 (case check_packet Capacity (tmp_buffer st1) recv_len of
                    Inl f \<Rightarrow> Inl f
                  | Inr True \<Rightarrow>
                      (case copy_from Capacity (tmp_buffer st1) packet of
                         Inl f \<Rightarrow> Inl f
                       | Inr packet' \<Rightarrow> Inr (True, packet', st1))
                  | Inr False \<Rightarrow> resync Capacity recv_len packet st1)
               else Inr (False, packet, reconnect st1))"

text \<open>
  One turn of the receive thread's loop: a framed packet becomes the latest packet.
\<close>

definition realtime_read_step ::
  "nat \<Rightarrow> read_result \<Rightarrow> FixedPacket \<Rightarrow> TransceiverManager
     \<Rightarrow> fault + (FixedPacket \<times> TransceiverManager)" where
  "realtime_read_step Capacity rd packet st =
     (case recv_packet Capacity rd packet st of
        Inl f \<Rightarrow> Inl f
      | Inr (ok, packet', st') \<Rightarrow>
          if ok then Inr (packet', st'\<lparr>latest_packet := Some packet'\<rparr>)
          else Inr (packet', st'))"


text \<open>\<^verbatim>\<open>get_latest_packet()\<close>: the line that would clear the cache is commented out.\<close>

definition get_latest_packet ::
  "TransceiverManager \<Rightarrow> FixedPacket option \<times> TransceiverManager" where
  "get_latest_packet st =
     (let result = None;
          result = (if latest_packet st \<noteq> None then latest_packet st else result)
      in (result, st))"

subsection \<open>What the statements observe\<close>

text \<open>The live bytes of the carry-over buffer: the first \<open>_recv_buf_len\<close> of the array.\<close>

definition carry :: "TransceiverManager \<Rightarrow> byte list" where
  "carry st = take (recv_buf_len st) (recv_buffer st)"

text \<open>
  The array sizes fixed by the member declarations, and the live length within the
  array.
\<close>

definition wf_manager :: "nat \<Rightarrow> TransceiverManager \<Rightarrow> bool" where
  "wf_manager Capacity st \<longleftrightarrow>
     length (tmp_buffer st) = Capacity \<and> length (recv_buffer st) = Capacity * 2
     \<and> recv_buf_len st \<le> Capacity * 2"

text \<open>A read that is one whole frame: \<open>Capacity\<close> bytes, head first, tail last.\<close>

definition aligned_frame :: "nat \<Rightarrow> byte list \<Rightarrow> bool" where
  "aligned_frame Capacity d \<longleftrightarrow>
     length d = Capacity \<and> d ! 0 = HEAD_BYTE \<and> d ! (Capacity - 1) = TAIL_BYTE"

text \<open>A \<open>Capacity\<close>-byte window of \<open>bs\<close> at \<open>i\<close> with head and tail in place.\<close>

definition window_at :: "nat \<Rightarrow> byte list \<Rightarrow> nat \<Rightarrow> bool" where
  "window_at Capacity bs i \<longleftrightarrow>
     i + Capacity \<le> length bs \<and> bs ! i = HEAD_BYTE \<and> bs ! (i + Capacity - 1) = TAIL_BYTE"


section \<open>Bounds check: wrap-around facts\<close>

lemma unat_of_nat_size_t:
  assumes "n < 2 ^ 64"
  shows "unat (of_nat n :: size_t) = n"
  using assms by (simp add: unat_of_nat)

lemma unat_Capacity_pred:
  assumes "1 \<le> Capacity" "Capacity < 2 ^ 64"
  shows "unat ((of_nat Capacity :: size_t) - 1) = Capacity - 1"
proof -
  have "unat (of_nat Capacity :: size_t) = Capacity"
    using assms by (simp add: unat_of_nat_size_t)
  moreover have "(1 :: size_t) \<le> of_nat Capacity"
    using assms by (simp add: word_le_nat_alt unat_of_nat_size_t)
  ultimately show ?thesis
    by (simp add: unat_sub)
qed

lemma unat_index_plus:
  assumes "unat (index :: size_t) + DataLen < 2 ^ 64"
  shows "unat (index + of_nat DataLen) = unat index + DataLen"
proof -
  have "DataLen < 2 ^ 64" using assms by simp
  then have "unat (of_nat DataLen :: size_t) = DataLen"
    by (simp add: unat_of_nat_size_t)
  then show ?thesis
    using assms by (simp add: unat_word_ariths)
qed

lemma bounds_check_iff:
  assumes "1 \<le> Capacity" "Capacity < 2 ^ 64" "unat (index :: size_t) + DataLen < 2 ^ 64"
  shows "(0 < index \<and> index + of_nat DataLen < of_nat Capacity - 1)
         \<longleftrightarrow> (0 < unat index \<and> unat index + DataLen < Capacity - 1)"
  using assms
  by (simp add: word_less_nat_alt unat_Capacity_pred unat_index_plus)

section \<open>FixedPacket: a write that stays inside the buffer\<close>

text \<open>
  When the copy of a call that returns \<^verbatim>\<open>true\<close> lies inside the array, the
  offset is in range as a number and the head, check and tail bytes are untouched.
\<close>

lemma load_data_success_bounds:
  assumes ok: "load_data Capacity T_trivial DataLen data index p = Inr (Some True, p')"
    and cap: "3 \<le> Capacity" "Capacity < 2 ^ 64" "length (buffer p) = Capacity"
  shows "0 < unat index \<and> unat index + DataLen < Capacity - 1 \<and> DataLen \<le> length data
         \<and> buffer p' = take (unat index) (buffer p) @ take DataLen data
                        @ drop (unat index + DataLen) (buffer p)"
proof -
  from ok have chk: "0 < index \<and> index + of_nat DataLen < of_nat Capacity - 1"
    by (simp add: load_data_def split: if_splits)
  from ok have inb: "DataLen \<le> length data \<and> unat index + DataLen \<le> length (buffer p)"
    by (simp add: load_data_def split: if_splits)
  from ok chk inb have upd: "buffer p' = take (unat index) (buffer p) @ take DataLen data
                        @ drop (unat index + DataLen) (buffer p)"
    by (auto simp add: load_data_def split: if_splits)
  from inb cap have "unat index + DataLen < 2 ^ 64" by simp
  with chk cap have "0 < unat index \<and> unat index + DataLen < Capacity - 1"
    using bounds_check_iff [of Capacity index DataLen] by simp
  with inb upd show ?thesis by simp
qed

lemma load_data_frame_bytes:
  assumes ok: "load_data Capacity T_trivial DataLen data index p = Inr (Some True, p')"
    and cap: "3 \<le> Capacity" "Capacity < 2 ^ 64" "length (buffer p) = Capacity"
  shows "length (buffer p') = Capacity"
    and "buffer p' ! 0 = buffer p ! 0"
    and "buffer p' ! (Capacity - 2) = buffer p ! (Capacity - 2)"
    and "buffer p' ! (Capacity - 1) = buffer p ! (Capacity - 1)"
proof -
  note b = load_data_success_bounds [OF ok cap]
  let ?i = "unat index"
  from b have i: "0 < ?i" "?i + DataLen < Capacity - 1" "DataLen \<le> length data"
    and upd: "buffer p' = take ?i (buffer p) @ take DataLen data @ drop (?i + DataLen) (buffer p)"
    by simp_all
  show "length (buffer p') = Capacity"
    using i cap by (simp add: upd)
  show "buffer p' ! 0 = buffer p ! 0"
    using i cap by (simp add: upd nth_append)
  show "buffer p' ! (Capacity - 2) = buffer p ! (Capacity - 2)"
    using i cap by (simp add: upd nth_append min_def)
  show "buffer p' ! (Capacity - 1) = buffer p ! (Capacity - 1)"
    using i cap by (simp add: upd nth_append min_def)
qed

text \<open>
  Where \<open>index + DataLen\<close> does not wrap, the result is \<^verbatim>\<open>std::nullopt\<close>
  exactly when the offset is out of range or the type is not trivially copyable.
\<close>

lemma load_data_nullopt_iff:
  assumes "3 \<le> Capacity" "Capacity < 2 ^ 64" "length (buffer p) = Capacity"
    and "DataLen \<le> length data" "unat index + DataLen < 2 ^ 64"
  shows "load_data Capacity T_trivial DataLen data index p = Inr (None, p)
         \<longleftrightarrow> \<not> (0 < unat index \<and> unat index + DataLen < Capacity - 1) \<or> \<not> T_trivial"
    and "load_data Capacity T_trivial DataLen data index p \<noteq> Inr (None, p)
         \<longleftrightarrow> (\<exists>p'. load_data Capacity T_trivial DataLen data index p = Inr (Some True, p'))"
  using assms bounds_check_iff [of Capacity index DataLen]
  by (auto simp add: load_data_def)

lemma unload_data_nullopt_iff:
  assumes "3 \<le> Capacity" "Capacity < 2 ^ 64" "length (buffer p) = Capacity"
    and "DataLen \<le> length data" "unat index + DataLen < 2 ^ 64"
  shows "unload_data Capacity T_trivial DataLen data index p = Inr (None, data)
         \<longleftrightarrow> \<not> (0 < unat index \<and> unat index + DataLen < Capacity - 1) \<or> \<not> T_trivial"
    and "unload_data Capacity T_trivial DataLen data index p \<noteq> Inr (None, data)
         \<longleftrightarrow> (\<exists>d'. unload_data Capacity T_trivial DataLen data index p = Inr (Some True, d'))"
  using assms bounds_check_iff [of Capacity index DataLen]
  by (auto simp add: unload_data_def)

section \<open>TransceiverManager: the two loops of the scan\<close>

text \<open>
  The compaction loop copies forward and never reads a cell it has written
  (\<open>k \<le> j\<close>), so it moves the bytes \<open>j ..< len\<close> to position \<open>k\<close>.
\<close>

lemma shift_rest_result:
  assumes "k \<le> j" "j \<le> len" "len \<le> length buf"
  shows "shift_rest j k len buf
         = Inr (take k buf @ take (len - j) (drop j buf) @ drop (k + (len - j)) buf, k + (len - j))"
  using assms
proof (induction j k len buf rule: shift_rest.induct)
  case (1 j k len buf)
  show ?case
  proof (cases "j < len")
    case False
    with "1.prems" have "j = len" by simp
    then show ?thesis by (simp add: shift_rest.simps [of len k len buf])
  next
    case True
    let ?B = "buf[k := buf ! j]"
    from True "1.prems" have jb: "j < length buf" and kb: "k < length buf" by simp_all
    have step: "shift_rest j k len buf = shift_rest (j + 1) (k + 1) len ?B"
      using True jb kb by (simp add: shift_rest.simps [of j k len buf])
    have IH: "shift_rest (j + 1) (k + 1) len ?B
         = Inr (take (k + 1) ?B @ take (len - (j + 1)) (drop (j + 1) ?B)
                  @ drop (k + 1 + (len - (j + 1))) ?B, k + 1 + (len - (j + 1)))"
      using "1.IH" [OF True] jb kb "1.prems" True by simp
    have t1: "take (k + 1) ?B = take k buf @ [buf ! j]"
      using kb by (simp add: take_Suc_conv_app_nth)
    have t2: "drop (j + 1) ?B = drop (j + 1) buf"
      using "1.prems" by simp
    have e: "k + 1 + (len - (j + 1)) = k + (len - j)"
      using True by arith
    have "k < k + (len - j)"
      using True by arith
    then have t3: "drop (k + (len - j)) ?B = drop (k + (len - j)) buf"
      by (rule drop_update_cancel)
    have t4: "take (len - j) (drop j buf) = buf ! j # take (len - (j + 1)) (drop (j + 1) buf)"
    proof -
      have "drop j buf = buf ! j # drop (Suc j) buf"
        using jb by (simp add: Cons_nth_drop_Suc)
      moreover have "len - j = Suc (len - (j + 1))" using True by simp
      ultimately show ?thesis by simp
    qed
    from step IH show ?thesis
      unfolding e t1 t2 t3 t4 by simp
  qed
qed

lemma check_packet_window:
  assumes "0 < Capacity" "i + Capacity \<le> length buf"
  shows "check_packet Capacity (drop i buf) Capacity
         = Inr (buf ! i = HEAD_BYTE \<and> buf ! (i + Capacity - 1) = TAIL_BYTE)"
proof -
  have "drop i buf ! 0 = buf ! i" "drop i buf ! (Capacity - 1) = buf ! (i + Capacity - 1)"
    using assms by simp_all
  moreover have "\<not> length (drop i buf) < Capacity"
    using assms by simp
  ultimately show ?thesis
    using assms by (simp add: check_packet_def)
qed

lemma scan_frames_none:
  assumes "0 < Capacity" "len \<le> length buf"
    and "\<forall>j. i \<le> j \<and> j + Capacity \<le> len
            \<longrightarrow> \<not> (buf ! j = HEAD_BYTE \<and> buf ! (j + Capacity - 1) = TAIL_BYTE)"
  shows "scan_frames Capacity i packet len buf = Inr (False, packet, buf, len)"
  using assms
proof (induction Capacity i packet len buf rule: scan_frames.induct)
  case (1 Capacity i packet len buf)
  show ?case
  proof (cases "i + Capacity \<le> len")
    case False
    then show ?thesis by (simp add: scan_frames.simps [of Capacity i packet len buf])
  next
    case True
    with "1.prems" have chk: "check_packet Capacity (drop i buf) Capacity = Inr False"
      by (simp add: check_packet_window)
    have "scan_frames Capacity (i + 1) packet len buf = Inr (False, packet, buf, len)"
      using "1.IH" [OF True chk] "1.prems" by simp
    with True chk show ?thesis
      by (simp add: scan_frames.simps [of Capacity i packet len buf])
  qed
qed

lemma scan_frames_found:
  assumes "0 < Capacity" "len \<le> length buf" "length (buffer packet) = Capacity"
    and "i \<le> i0" "i0 + Capacity \<le> len"
    and "buf ! i0 = HEAD_BYTE" "buf ! (i0 + Capacity - 1) = TAIL_BYTE"
    and "\<forall>j. i \<le> j \<and> j < i0
            \<longrightarrow> \<not> (buf ! j = HEAD_BYTE \<and> buf ! (j + Capacity - 1) = TAIL_BYTE)"
  shows "scan_frames Capacity i packet len buf
         = Inr (True, packet\<lparr>buffer := take Capacity (drop i0 buf)\<rparr>,
                take (len - (i0 + Capacity)) (drop (i0 + Capacity) buf)
                  @ drop (len - (i0 + Capacity)) buf,
                len - (i0 + Capacity))"
  using assms
proof (induction Capacity i packet len buf rule: scan_frames.induct)
  case (1 Capacity i packet len buf)
  from "1.prems" have inr: "i + Capacity \<le> len" by simp
  show ?case
  proof (cases "i = i0")
    case True
    with "1.prems" have chk: "check_packet Capacity (drop i buf) Capacity = Inr True"
      by (simp add: check_packet_window)
    have cp: "copy_from Capacity (drop i buf) packet
              = Inr (packet\<lparr>buffer := take Capacity (drop i0 buf)\<rparr>)"
      using "1.prems" True by (simp add: copy_from_def)
    have sh: "shift_rest (i + Capacity) 0 len buf
              = Inr (take (len - (i0 + Capacity)) (drop (i0 + Capacity) buf)
                       @ drop (len - (i0 + Capacity)) buf, len - (i0 + Capacity))"
      using shift_rest_result [of 0 "i + Capacity" len buf] "1.prems" True by simp
    from inr chk cp sh show ?thesis
      by (simp add: scan_frames.simps [of Capacity i packet len buf])
  next
    case False
    with "1.prems" have lt: "i < i0" by simp
    with "1.prems" have chk: "check_packet Capacity (drop i buf) Capacity = Inr False"
      by (simp add: check_packet_window)
    have "scan_frames Capacity (i + 1) packet len buf
         = Inr (True, packet\<lparr>buffer := take Capacity (drop i0 buf)\<rparr>,
                take (len - (i0 + Capacity)) (drop (i0 + Capacity) buf)
                  @ drop (len - (i0 + Capacity)) buf,
                len - (i0 + Capacity))"
      using "1.IH" [OF inr chk] "1.prems" lt by simp
    with inr chk show ?thesis
      by (simp add: scan_frames.simps [of Capacity i packet len buf])
  qed
qed

section \<open>TransceiverManager: append, then scan\<close>

lemma recv_packet_slow:
  assumes "0 < Capacity" "length (tmp_buffer st) = Capacity" "d \<noteq> []" "length d \<le> Capacity"
    and "\<not> aligned_frame Capacity d"
  shows "recv_packet Capacity (Read_bytes d) packet st
         = resync Capacity (length d) packet (store_read d st)"
proof -
  have "check_packet Capacity (tmp_buffer (store_read d st)) (length d) = Inr False"
  proof (cases "length d = Capacity")
    case True
    with assms have "tmp_buffer (store_read d st) = d"
      by (simp add: store_read_def called_def)
    with assms True show ?thesis
      by (auto simp add: check_packet_def aligned_frame_def)
  next
    case False
    then show ?thesis by (simp add: check_packet_def)
  qed
  with assms show ?thesis
    by (simp add: recv_packet_def Let_def)
qed

lemma append_read_carry:
  assumes "wf_manager Capacity st" "length d \<le> Capacity"
  shows "\<exists>st2. append_read Capacity (length d) (store_read d st) = Inr st2
           \<and> wf_manager Capacity st2
           \<and> length (recv_buffer st2) = Capacity * 2
           \<and> recv_buf_len st2 \<le> Capacity * 2
           \<and> carry st2 = (if recv_buf_len st + length d > Capacity * 2 then [] else carry st) @ d"
proof -
  let ?s1 = "store_read d st"
  let ?len0 = "if recv_buf_len st + length d > Capacity * 2 then 0 else recv_buf_len st"
  let ?B = "take ?len0 (recv_buffer st) @ d @ drop (?len0 + length d) (recv_buffer st)"
  let ?st2 = "?s1\<lparr>recv_buffer := ?B, recv_buf_len := ?len0 + length d\<rparr>"
  from assms have tmp: "length (tmp_buffer st) = Capacity"
    and rb: "length (recv_buffer st) = Capacity * 2" and n: "recv_buf_len st \<le> Capacity * 2"
    by (simp_all add: wf_manager_def)
  have s1: "recv_buf_len ?s1 = recv_buf_len st" "recv_buffer ?s1 = recv_buffer st"
    "take (length d) (tmp_buffer ?s1) = d" "length (tmp_buffer ?s1) = Capacity"
    using assms(2) tmp by (simp_all add: store_read_def called_def)
  have fit: "?len0 + length d \<le> Capacity * 2"
    using assms(2) by simp
  have app: "append_read Capacity (length d) ?s1 = Inr ?st2"
    using s1 fit rb assms(2) by (simp add: append_read_def Let_def)
  have lenB: "length ?B = Capacity * 2"
    using fit rb by simp
  have "take (?len0 + length d) ?B = take ?len0 (recv_buffer st) @ d"
    using fit rb by simp
  then have c: "carry ?st2 = (if recv_buf_len st + length d > Capacity * 2 then [] else carry st) @ d"
    by (simp add: carry_def)
  have wf2: "wf_manager Capacity ?st2"
    using s1 lenB fit by (simp add: wf_manager_def)
  from app wf2 lenB fit c show ?thesis
    by (intro exI [of _ ?st2]) simp
qed


lemma window_at_take:
  assumes "0 < Capacity" "L \<le> length B"
  shows "window_at Capacity (take L B) j
         \<longleftrightarrow> j + Capacity \<le> L \<and> B ! j = HEAD_BYTE \<and> B ! (j + Capacity - 1) = TAIL_BYTE"
proof (cases "j + Capacity \<le> L")
  case True
  with assms have "take L B ! j = B ! j" "take L B ! (j + Capacity - 1) = B ! (j + Capacity - 1)"
    by simp_all
  with True assms show ?thesis
    by (simp add: window_at_def)
next
  case False
  with assms show ?thesis
    by (simp add: window_at_def)
qed

lemma resync_none:
  assumes "0 < Capacity" "append_read Capacity n st = Inr st2"
    and "recv_buf_len st2 \<le> length (recv_buffer st2)"
    and "\<forall>j. \<not> window_at Capacity (carry st2) j"
  shows "resync Capacity n packet st = Inr (False, packet, st2)"
proof -
  have "\<forall>j. 0 \<le> j \<and> j + Capacity \<le> recv_buf_len st2
          \<longrightarrow> \<not> (recv_buffer st2 ! j = HEAD_BYTE \<and> recv_buffer st2 ! (j + Capacity - 1) = TAIL_BYTE)"
    using assms(4) window_at_take [OF assms(1,3)] by (simp add: carry_def)
  then have "scan_frames Capacity 0 packet (recv_buf_len st2) (recv_buffer st2)
        = Inr (False, packet, recv_buffer st2, recv_buf_len st2)"
    using scan_frames_none [of Capacity "recv_buf_len st2" "recv_buffer st2" 0 packet] assms(1,3)
    by simp
  with assms(2) show ?thesis
    by (simp add: resync_def)
qed

lemma resync_found:
  assumes "0 < Capacity" "append_read Capacity n st = Inr st2"
    and "wf_manager Capacity st2" "length (buffer packet) = Capacity"
    and "window_at Capacity (carry st2) i0"
    and "\<forall>j<i0. \<not> window_at Capacity (carry st2) j"
  shows "\<exists>st'. resync Capacity n packet st
               = Inr (True, packet\<lparr>buffer := take Capacity (drop i0 (carry st2))\<rparr>, st')
           \<and> wf_manager Capacity st'
           \<and> carry st' = drop (i0 + Capacity) (carry st2)
           \<and> recv_buf_len st' = length (carry st2) - (i0 + Capacity)"
proof -
  let ?B = "recv_buffer st2"
  let ?L = "recv_buf_len st2"
  let ?r = "?L - (i0 + Capacity)"
  let ?B' = "take ?r (drop (i0 + Capacity) ?B) @ drop ?r ?B"
  let ?st' = "st2\<lparr>recv_buffer := ?B', recv_buf_len := ?r\<rparr>"
  from assms(3) have lb: "?L \<le> length ?B" and lenB: "length ?B = Capacity * 2"
    and tmp: "length (tmp_buffer st2) = Capacity"
    by (simp_all add: wf_manager_def)
  have lenC: "length (carry st2) = ?L"
    using lb by (simp add: carry_def)
  from assms(5) have w: "i0 + Capacity \<le> ?L" "?B ! i0 = HEAD_BYTE" "?B ! (i0 + Capacity - 1) = TAIL_BYTE"
    using window_at_take [OF assms(1) lb, of i0] by (simp_all add: carry_def)
  have nw: "\<forall>j. 0 \<le> j \<and> j < i0
          \<longrightarrow> \<not> (?B ! j = HEAD_BYTE \<and> ?B ! (j + Capacity - 1) = TAIL_BYTE)"
  proof (intro allI impI)
    fix j assume j: "0 \<le> j \<and> j < i0"
    with assms(6) have "\<not> window_at Capacity (carry st2) j" by simp
    moreover from j w have "j + Capacity \<le> ?L" by simp
    ultimately show "\<not> (?B ! j = HEAD_BYTE \<and> ?B ! (j + Capacity - 1) = TAIL_BYTE)"
      using window_at_take [OF assms(1) lb, of j] by (simp add: carry_def)
  qed
  have sc: "scan_frames Capacity 0 packet ?L ?B
        = Inr (True, packet\<lparr>buffer := take Capacity (drop i0 ?B)\<rparr>, ?B', ?r)"
    using scan_frames_found [OF assms(1) lb assms(4) _ w nw] by simp
  have pk: "take Capacity (drop i0 (carry st2)) = take Capacity (drop i0 ?B)"
  proof -
    have "drop i0 (take ?L ?B) = take (?L - i0) (drop i0 ?B)"
      by (simp add: drop_take)
    moreover have "Capacity \<le> ?L - i0" using w by simp
    ultimately show ?thesis
      by (simp add: carry_def min_def)
  qed
  have r: "resync Capacity n packet st
           = Inr (True, packet\<lparr>buffer := take Capacity (drop i0 (carry st2))\<rparr>, ?st')"
    using assms(2) sc pk by (simp add: resync_def)
  have lr: "length (take ?r (drop (i0 + Capacity) ?B)) = ?r"
    using lb by simp
  have lenB': "length ?B' = Capacity * 2"
    using lb lenB by simp
  have "take ?r ?B' = take ?r (drop (i0 + Capacity) ?B)"
    using lr by simp
  also have "\<dots> = drop (i0 + Capacity) (take ?L ?B)"
    using w by (simp add: drop_take)
  finally have c: "carry ?st' = drop (i0 + Capacity) (carry st2)"
    by (simp add: carry_def)
  have wf': "wf_manager Capacity ?st'"
    using lenB' tmp lb lenB by (simp add: wf_manager_def)
  from r wf' c lenC show ?thesis
    by (intro exI [of _ ?st']) simp
qed


lemma carry_length:
  assumes "wf_manager Capacity st"
  shows "length (carry st) = recv_buf_len st"
  using assms by (simp add: carry_def wf_manager_def)

lemma recv_packet_no_window:
  assumes "0 < Capacity" "wf_manager Capacity st"
    and "d \<noteq> []" "length d \<le> Capacity" "\<not> aligned_frame Capacity d"
    and "C = (if recv_buf_len st + length d > Capacity * 2 then [] else carry st) @ d"
    and "\<forall>j. \<not> window_at Capacity C j"
  shows "\<exists>st'. recv_packet Capacity (Read_bytes d) packet st = Inr (False, packet, st')
           \<and> wf_manager Capacity st' \<and> carry st' = C"
proof -
  from append_read_carry [OF assms(2,4)] obtain st2 where
    app: "append_read Capacity (length d) (store_read d st) = Inr st2"
    and wf2: "wf_manager Capacity st2" and c2: "carry st2 = C"
    using assms(6) by auto
  from wf2 have lb: "recv_buf_len st2 \<le> length (recv_buffer st2)"
    by (simp add: wf_manager_def)
  from assms(2) have tmp: "length (tmp_buffer st) = Capacity"
    by (simp add: wf_manager_def)
  have "resync Capacity (length d) packet (store_read d st) = Inr (False, packet, st2)"
    using resync_none [OF assms(1) app lb] assms(7) c2 by simp
  then have "recv_packet Capacity (Read_bytes d) packet st = Inr (False, packet, st2)"
    using recv_packet_slow [OF assms(1) tmp assms(3,4,5)] by simp
  with wf2 c2 show ?thesis by blast
qed

lemma recv_packet_first_window:
  assumes "0 < Capacity" "wf_manager Capacity st" "length (buffer packet) = Capacity"
    and "d \<noteq> []" "length d \<le> Capacity" "\<not> aligned_frame Capacity d"
    and "C = (if recv_buf_len st + length d > Capacity * 2 then [] else carry st) @ d"
    and "window_at Capacity C i0" "\<forall>j<i0. \<not> window_at Capacity C j"
  shows "\<exists>st'. recv_packet Capacity (Read_bytes d) packet st
               = Inr (True, packet\<lparr>buffer := take Capacity (drop i0 C)\<rparr>, st')
           \<and> wf_manager Capacity st' \<and> carry st' = drop (i0 + Capacity) C"
proof -
  from append_read_carry [OF assms(2,5)] obtain st2 where
    app: "append_read Capacity (length d) (store_read d st) = Inr st2"
    and wf2: "wf_manager Capacity st2" and c2: "carry st2 = C"
    using assms(7) by auto
  from assms(2) have tmp: "length (tmp_buffer st) = Capacity"
    by (simp add: wf_manager_def)
  from resync_found [OF assms(1) app wf2 assms(3), of i0] assms(8,9) c2
  obtain st' where
    "resync Capacity (length d) packet (store_read d st)
       = Inr (True, packet\<lparr>buffer := take Capacity (drop i0 C)\<rparr>, st')"
    "wf_manager Capacity st'" "carry st' = drop (i0 + Capacity) C"
    by auto
  then show ?thesis
    using recv_packet_slow [OF assms(1) tmp assms(4,5,6)] by auto
qed













section \<open>TransceiverManager: receive does not touch the cache\<close>

lemma resync_latest_packet:
  assumes "resync Capacity n packet st = Inr (ok, packet', st')"
  shows "latest_packet st' = latest_packet st"
proof -
  from assms obtain st2 where a: "append_read Capacity n st = Inr st2"
    by (cases "append_read Capacity n st") (simp_all add: resync_def)
  from a have l2: "latest_packet st2 = latest_packet st"
    by (auto simp add: append_read_def Let_def split: if_splits)
  from assms a obtain buf' len' where "st' = st2\<lparr>recv_buffer := buf', recv_buf_len := len'\<rparr>"
    by (cases "scan_frames Capacity 0 packet (recv_buf_len st2) (recv_buffer st2)")
       (auto simp add: resync_def)
  with l2 show ?thesis by simp
qed

lemma recv_packet_latest_packet:
  assumes "recv_packet Capacity rd packet st = Inr (ok, packet', st')"
  shows "latest_packet st' = latest_packet st"
proof (cases rd)
  case Read_throws
  with assms show ?thesis by (auto simp add: recv_packet_def called_def)
next
  case Read_error
  with assms show ?thesis by (auto simp add: recv_packet_def reconnect_def called_def)
next
  case (Read_bytes d)
  from assms Read_bytes have inb: "\<not> (length d > Capacity \<or> length d > length (tmp_buffer st))"
    by (auto simp add: recv_packet_def split: if_splits)
  have l1: "latest_packet (store_read d st) = latest_packet st"
    by (simp add: store_read_def called_def)
  show ?thesis
  proof (cases "d = []")
    case True
    with assms Read_bytes inb show ?thesis
      by (auto simp add: recv_packet_def reconnect_def called_def store_read_def)
  next
    case False
    show ?thesis
    proof (cases "check_packet Capacity (tmp_buffer (store_read d st)) (length d)")
      case (Inl f)
      with assms Read_bytes inb False show ?thesis
        by (simp add: recv_packet_def Let_def)
    next
      case (Inr b)
      show ?thesis
      proof (cases b)
        case True
        with Inr assms Read_bytes inb False l1 show ?thesis
          by (cases "copy_from Capacity (tmp_buffer (store_read d st)) packet")
             (auto simp add: recv_packet_def Let_def)
      next
        case b: False
        with Inr assms Read_bytes inb False
        have "resync Capacity (length d) packet (store_read d st) = Inr (ok, packet', st')"
          by (simp add: recv_packet_def Let_def)
        from resync_latest_packet [OF this] l1 show ?thesis by simp
      qed
    qed
  qed
qed

section \<open>TransceiverManager: the send queue\<close>

lemma pop_all_empty: "pop_all q = []"
  by (induction q) simp_all

lemma pop_while_over_drop: "pop_while_over n q = drop (length q - n) q"
  by (induction q) (simp_all add: Suc_diff_le)

text \<open>
  \<^verbatim>\<open>set_send_mode\<close> trims to the bound for every bound, zero included, and never
  pops an empty queue.
\<close>

lemma set_send_mode_limited:
  "realtime_packets (set_send_mode LIMITED_FIFO n st)
     = drop (length (realtime_packets st) - n) (realtime_packets st)"
  "length (realtime_packets (set_send_mode LIMITED_FIFO n st)) \<le> n"
  by (simp_all add: set_send_mode_def pop_while_over_drop Let_def)

text \<open>
  With the send thread on: \<open>LATEST_ONLY\<close> leaves exactly the packet passed;
  \<open>LIMITED_FIFO\<close> with a bound of at least one keeps the last \<open>max_queue_size\<close>
  packets pushed, in push order.
\<close>

lemma send_packet_queue_policy:
  assumes "use_realtime_send st"
  shows "send_mode st = LATEST_ONLY \<Longrightarrow>
           send_packet Capacity wr packet st = Inr (True, st\<lparr>realtime_packets := [packet]\<rparr>)"
    and "send_mode st = LIMITED_FIFO \<Longrightarrow> 1 \<le> max_queue_size st
         \<Longrightarrow> length (realtime_packets st) \<le> max_queue_size st \<Longrightarrow>
           send_packet Capacity wr packet st
             = Inr (True, st\<lparr>realtime_packets :=
                     drop (length (realtime_packets st) + 1 - max_queue_size st)
                          (realtime_packets st @ [packet])\<rparr>)"
  using assms
  by (auto simp add: send_packet_def pop_all_empty queue_pop_def split: list.splits)

section \<open>Concrete packets and managers\<close>

text \<open>The 16-byte packet a default constructor builds.\<close>

lemma FixedPacket_new_16:
  "FixedPacket_new 16 = \<lparr>buffer = [0xFF, 0, 0, 0, 0, 0, 0, 0, 0, 0, 0, 0, 0, 0, 0, 0x0D]\<rparr>"
  by (simp add: FixedPacket_new_def HEAD_BYTE_def TAIL_BYTE_def eval_nat_numeral)

lemma FixedPacket_new_4: "FixedPacket_new 4 = \<lparr>buffer = [0xFF, 0, 0, 0x0D]\<rparr>"
  by (simp add: FixedPacket_new_def HEAD_BYTE_def TAIL_BYTE_def eval_nat_numeral)

lemma TransceiverManager_new_4:
  "TransceiverManager_new 4 mode n =
     \<lparr>transporter = [], tmp_buffer = [0, 0, 0, 0],
      recv_buffer = [0, 0, 0, 0, 0, 0, 0, 0], recv_buf_len = 0,
      use_realtime_send = False, realtime_packets = [],
      use_realtime_read = False, latest_packet = None,
      send_mode = mode, max_queue_size = n\<rparr>"
  by (simp add: TransceiverManager_new_def eval_nat_numeral)

text \<open>The equations that run \<^verbatim>\<open>recv_packet\<close> on concrete bytes.\<close>

lemmas recv_eval =
  recv_packet_def resync_def append_read_def store_read_def called_def reconnect_def
  check_packet_def copy_from_def scan_frames.simps shift_rest.simps
  TransceiverManager_new_4 FixedPacket_new_4 HEAD_BYTE_def TAIL_BYTE_def Let_def

section \<open>FixedPacket: claims\<close>

text \<open>
  C6. For a trivially copyable value of \<open>length data\<close> bytes and an offset with
  \<open>index > 0\<close> and \<open>index + sizeof(value) < Capacity - 1\<close> (the sum taken as a
  number), \<^verbatim>\<open>load_data\<close> returns \<^verbatim>\<open>true\<close>, and \<^verbatim>\<open>unload_data\<close>
  at the same offset into a variable of the same type returns \<^verbatim>\<open>true\<close> and
  yields exactly the bytes written.
\<close>

theorem load_unload_roundtrip:
  assumes cap: "3 \<le> Capacity" "Capacity < 2 ^ 64" "length (buffer p) = Capacity"
    and idx: "0 < unat index" "unat index + DataLen < Capacity - 1"
    and len: "length data = DataLen" "length out = DataLen"
  shows "\<exists>p'. load_data Capacity True DataLen data index p = Inr (Some True, p')
              \<and> unload_data Capacity True DataLen out index p' = Inr (Some True, data)"
proof -
  let ?i = "unat index"
  let ?p' = "p\<lparr>buffer := take ?i (buffer p) @ take DataLen data
                              @ drop (?i + DataLen) (buffer p)\<rparr>"
  from idx cap have nowrap: "?i + DataLen < 2 ^ 64" by simp
  have chk: "0 < index \<and> index + of_nat DataLen < of_nat Capacity - 1"
    using bounds_check_iff [of Capacity index DataLen] cap idx nowrap by simp
  have inb: "?i + DataLen \<le> length (buffer p)"
    using idx cap by simp
  have ld: "load_data Capacity True DataLen data index p = Inr (Some True, ?p')"
    using chk inb len by (simp add: load_data_def)
  have len': "length (buffer ?p') = Capacity"
    using idx cap len by simp
  have rd: "take DataLen (drop ?i (buffer ?p')) = data"
    using idx cap len by simp
  have "unload_data Capacity True DataLen out index ?p' = Inr (Some True, data)"
    using chk len idx len' rd unfolding unload_data_def by simp
  with ld show ?thesis by blast
qed

theorem load_unload_roundtrip_witness:
  "\<exists>p'. load_data 16 True 4 [0xDE, 0xAD, 0xBE, 0xEF] 3 (FixedPacket_new 16) = Inr (Some True, p')
        \<and> unload_data 16 True 4 [0, 0, 0, 0] 3 p' = Inr (Some True, [0xDE, 0xAD, 0xBE, 0xEF])"
  by (rule load_unload_roundtrip) (simp_all add: FixedPacket_new_16)

text \<open>
  C7. \<^verbatim>\<open>load_data\<close> and \<^verbatim>\<open>unload_data\<close> are to return
  \<^verbatim>\<open>std::nullopt\<close>, with the buffer (the output argument) unchanged, exactly when
  the offset is out of range or the type is not trivially copyable. At
  \<open>index = 2\<^sup>6\<^sup>4 - 2\<close> with a 4-byte value and \<open>Capacity = 16\<close> the sum
  \<open>index + DataLen\<close> wraps to 2, the check passes, and the copy that follows lies
  outside the 16-byte buffer: neither \<^verbatim>\<open>std::nullopt\<close> nor a defined
  \<^verbatim>\<open>true\<close>.
\<close>

theorem bounds_check_wraps:
  "load_data 16 True 4 [1, 2, 3, 4] 0xFFFFFFFFFFFFFFFE (FixedPacket_new 16) = Inl Out_of_bounds
   \<and> unload_data 16 True 4 [0, 0, 0, 0] 0xFFFFFFFFFFFFFFFE (FixedPacket_new 16) = Inl Out_of_bounds
   \<and> (0xFFFFFFFFFFFFFFFE :: size_t) + of_nat 4 = 2
   \<and> \<not> unat (0xFFFFFFFFFFFFFFFE :: size_t) + 4 < 16 - 1"
  by (simp add: FixedPacket_new_16 load_data_def unload_data_def)

text \<open>
  C10. A \<^verbatim>\<open>load_data\<close> call that returns \<^verbatim>\<open>true\<close> is to leave byte 0,
  byte \<open>Capacity - 2\<close> and byte \<open>Capacity - 1\<close> alone. On a structurally valid
  16-byte packet, at \<open>index = 2\<^sup>6\<^sup>4 - 2\<close> with the 4-byte value
  \<open>[1, 2, 3, 4]\<close>, the bounds check passes, and the copy, which starts two bytes
  before the array, puts its third byte at offset \<open>index + 2 = 0\<close>, the head byte,
  and its fourth at offset 1: a write outside the array, after which the call returns
  \<^verbatim>\<open>true\<close>.
\<close>

theorem load_data_wrapped_write_reaches_head:
  "is_valid 16 (FixedPacket_new 16)
   \<and> (0 < (0xFFFFFFFFFFFFFFFE :: size_t)
        \<and> (0xFFFFFFFFFFFFFFFE :: size_t) + of_nat 4 < of_nat 16 - 1)
   \<and> (0xFFFFFFFFFFFFFFFE :: size_t) + 2 = 0
   \<and> (0xFFFFFFFFFFFFFFFE :: size_t) + 3 = 1
   \<and> load_data 16 True 4 [1, 2, 3, 4] 0xFFFFFFFFFFFFFFFE (FixedPacket_new 16) = Inl Out_of_bounds"
  by (simp add: FixedPacket_new_16 load_data_def is_valid_def HEAD_BYTE_def TAIL_BYTE_def)

section \<open>TransceiverManager: claims\<close>

text \<open>
  C1. Take a read that goes through the append (not empty, not one aligned frame) and
  the state \<open>st2\<close> right after the append. If some \<open>Capacity\<close>-byte window of the
  live bytes has 0xFF first and 0x0D last, then \<^verbatim>\<open>recv_packet\<close> returns
  \<^verbatim>\<open>true\<close> with the window at the smallest such index \<open>i0\<close>, and afterwards the
  live bytes are exactly those that followed that window, in order, the live length
  being their number.
\<close>

theorem recv_packet_earliest_window:
  assumes cap: "0 < Capacity"
    and wf: "wf_manager Capacity st" "length (buffer packet) = Capacity"
    and rd: "d \<noteq> []" "length d \<le> Capacity" "\<not> aligned_frame Capacity d"
    and app: "append_read Capacity (length d) (store_read d st) = Inr st2"
    and win: "window_at Capacity (carry st2) i"
  shows "\<exists>i0 st'. i0 \<le> i \<and> window_at Capacity (carry st2) i0
           \<and> (\<forall>j<i0. \<not> window_at Capacity (carry st2) j)
           \<and> recv_packet Capacity (Read_bytes d) packet st
               = Inr (True, packet\<lparr>buffer := take Capacity (drop i0 (carry st2))\<rparr>, st')
           \<and> carry st' = drop (i0 + Capacity) (carry st2)
           \<and> recv_buf_len st' = length (carry st2) - (i0 + Capacity)"
proof -
  define i0 where "i0 = (LEAST j. window_at Capacity (carry st2) j)"
  have w0: "window_at Capacity (carry st2) i0"
    unfolding i0_def using win by (rule LeastI)
  have le: "i0 \<le> i"
    unfolding i0_def using win by (rule Least_le)
  have least: "\<forall>j<i0. \<not> window_at Capacity (carry st2) j"
    unfolding i0_def using not_less_Least by blast
  from append_read_carry [OF wf(1) rd(2)] app
  have c2: "carry st2 = (if recv_buf_len st + length d > Capacity * 2 then [] else carry st) @ d"
    by auto
  from recv_packet_first_window [OF cap wf rd c2 w0 least]
  obtain st' where r: "recv_packet Capacity (Read_bytes d) packet st
               = Inr (True, packet\<lparr>buffer := take Capacity (drop i0 (carry st2))\<rparr>, st')"
    and wf': "wf_manager Capacity st'" and c': "carry st' = drop (i0 + Capacity) (carry st2)"
    by blast
  have "recv_buf_len st' = length (carry st2) - (i0 + Capacity)"
    using carry_length [OF wf'] c' by simp
  with le w0 least r c' show ?thesis by blast
qed

theorem recv_packet_earliest_window_witness:
  "\<exists>st'. recv_packet 4 (Read_bytes [2, 0x0D, 0xBB]) (FixedPacket_new 4)
            ((TransceiverManager_new 4 FIFO 100)
               \<lparr>recv_buffer := [0xAA, 0xFF, 1, 0, 0, 0, 0, 0], recv_buf_len := 3\<rparr>)
          = Inr (True, \<lparr>buffer = [0xFF, 1, 2, 0x0D]\<rparr>, st')
        \<and> carry st' = [0xBB] \<and> recv_buf_len st' = 1"
proof -
  let ?st = "(TransceiverManager_new 4 FIFO 100)
               \<lparr>recv_buffer := [0xAA, 0xFF, 1, 0, 0, 0, 0, 0], recv_buf_len := 3\<rparr>"
  let ?d = "[2, 0x0D, 0xBB] :: byte list"
  let ?p = "FixedPacket_new 4"
  let ?st2 = "(store_read ?d ?st)\<lparr>recv_buffer := [0xAA, 0xFF, 1, 2, 0x0D, 0xBB, 0, 0], recv_buf_len := 6\<rparr>"
  have cap: "(0::nat) < 4" by simp
  have wf: "wf_manager 4 ?st" "length (buffer ?p) = 4"
    by (simp_all add: wf_manager_def TransceiverManager_new_def FixedPacket_new_def)
  have rd: "?d \<noteq> []" "length ?d \<le> 4" "\<not> aligned_frame 4 ?d"
    by (simp_all add: aligned_frame_def)
  have app: "append_read 4 (length ?d) (store_read ?d ?st) = Inr ?st2"
    by (simp add: append_read_def store_read_def called_def TransceiverManager_new_def)
  have c2: "carry ?st2 = [0xAA, 0xFF, 1, 2, 0x0D, 0xBB]"
    by (simp add: carry_def)
  have win: "window_at 4 (carry ?st2) 1"
    by (simp add: c2 window_at_def HEAD_BYTE_def TAIL_BYTE_def)
  have n0: "\<not> window_at 4 (carry ?st2) 0"
    by (simp add: c2 window_at_def HEAD_BYTE_def)
  from recv_packet_earliest_window [OF cap wf rd app win]
  obtain i0 st' where i0: "i0 \<le> 1" "window_at 4 (carry ?st2) i0"
    and r: "recv_packet 4 (Read_bytes ?d) ?p ?st
              = Inr (True, ?p\<lparr>buffer := take 4 (drop i0 (carry ?st2))\<rparr>, st')"
    and c: "carry st' = drop (i0 + 4) (carry ?st2)"
    and l: "recv_buf_len st' = length (carry ?st2) - (i0 + 4)"
    by blast
  from i0 n0 have "i0 = 1"
    by (cases "i0 = 0") simp_all
  with r c l c2 show ?thesis
    by (simp add: FixedPacket_new_def)
qed

text \<open>
  C2. Starting with an empty carry-over buffer, a well-formed \<open>Capacity\<close>-byte frame
  delivered as a read of \<open>k\<close> bytes and a read of the other \<open>Capacity - k\<close>, for
  any \<open>k\<close> from 1 to \<open>Capacity - 1\<close>: the first \<^verbatim>\<open>recv_packet\<close> returns
  \<^verbatim>\<open>false\<close>, the second returns \<^verbatim>\<open>true\<close> with exactly that frame.
\<close>

theorem split_frame_resync:
  assumes cap: "0 < Capacity"
    and wf: "wf_manager Capacity st" "length (buffer packet) = Capacity"
    and empty: "recv_buf_len st = 0"
    and frame: "aligned_frame Capacity F"
    and k: "1 \<le> k" "k \<le> Capacity - 1"
  shows "\<exists>st1 st2.
           recv_packet Capacity (Read_bytes (take k F)) packet st = Inr (False, packet, st1)
         \<and> recv_packet Capacity (Read_bytes (drop k F)) packet st1
               = Inr (True, packet\<lparr>buffer := F\<rparr>, st2)
         \<and> recv_buf_len st2 = 0"
proof -
  from frame have lenF: "length F = Capacity"
    by (simp add: aligned_frame_def)
  from k cap have klt: "k < Capacity" by simp
  let ?d1 = "take k F" and ?d2 = "drop k F"
  have d1: "?d1 \<noteq> []" "length ?d1 \<le> Capacity" "\<not> aligned_frame Capacity ?d1"
    using k klt lenF by (auto simp add: aligned_frame_def)
  have d2: "?d2 \<noteq> []" "length ?d2 \<le> Capacity" "\<not> aligned_frame Capacity ?d2"
    using k klt lenF by (auto simp add: aligned_frame_def)
  have c0: "carry st = []"
    using empty by (simp add: carry_def)
  have C1: "?d1 = (if recv_buf_len st + length ?d1 > Capacity * 2 then [] else carry st) @ ?d1"
    using c0 by simp
  have nw1: "\<forall>j. \<not> window_at Capacity ?d1 j"
    using klt lenF by (simp add: window_at_def)
  from recv_packet_no_window [OF cap wf(1) d1 C1 nw1, of packet]
  obtain st1 where r1: "recv_packet Capacity (Read_bytes ?d1) packet st = Inr (False, packet, st1)"
    and wf1: "wf_manager Capacity st1" and c1: "carry st1 = ?d1"
    by blast
  have len1: "recv_buf_len st1 = k"
    using carry_length [OF wf1] c1 klt lenF by simp
  have C2: "F = (if recv_buf_len st1 + length ?d2 > Capacity * 2 then [] else carry st1) @ ?d2"
    using len1 c1 klt lenF by simp
  have w2: "window_at Capacity F 0"
    using frame by (simp add: window_at_def aligned_frame_def)
  from recv_packet_first_window [OF cap wf1 wf(2) d2 C2 w2]
  obtain st2 where r2: "recv_packet Capacity (Read_bytes ?d2) packet st1
               = Inr (True, packet\<lparr>buffer := take Capacity (drop 0 F)\<rparr>, st2)"
    and wf2: "wf_manager Capacity st2" and c2: "carry st2 = drop (0 + Capacity) F"
    by auto
  have "recv_buf_len st2 = 0"
    using carry_length [OF wf2] c2 lenF by simp
  with r1 r2 lenF show ?thesis by auto
qed

theorem split_frame_resync_witness:
  "\<exists>st1 st2.
      recv_packet 4 (Read_bytes [0xFF]) (FixedPacket_new 4) (TransceiverManager_new 4 FIFO 100)
        = Inr (False, FixedPacket_new 4, st1)
    \<and> recv_packet 4 (Read_bytes [7, 9, 0x0D]) (FixedPacket_new 4) st1
        = Inr (True, \<lparr>buffer = [0xFF, 7, 9, 0x0D]\<rparr>, st2)
    \<and> recv_buf_len st2 = 0"
proof -
  let ?st = "TransceiverManager_new 4 FIFO 100"
  let ?F = "[0xFF, 7, 9, 0x0D] :: byte list"
  have h: "(0::nat) < 4" "wf_manager 4 ?st" "length (buffer (FixedPacket_new 4)) = 4"
    "recv_buf_len ?st = 0" "aligned_frame 4 ?F" "(1::nat) \<le> 1" "(1::nat) \<le> 4 - 1"
    by (simp_all add: wf_manager_def TransceiverManager_new_def FixedPacket_new_def
          aligned_frame_def HEAD_BYTE_def TAIL_BYTE_def)
  from split_frame_resync [OF h] show ?thesis
    by (simp add: FixedPacket_new_def)
qed

text \<open>
  C3. When the read stores exactly \<open>Capacity\<close> bytes whose first is 0xFF and whose
  last is 0x0D, \<^verbatim>\<open>recv_packet\<close> returns \<^verbatim>\<open>true\<close> with those bytes as the
  packet, and the carry-over buffer and its live length are what they were: the state
  differs only by the transport call and the scratch buffer.
\<close>

theorem recv_packet_fast_path:
  assumes "0 < Capacity" "length (tmp_buffer st) = Capacity" "length (buffer packet) = Capacity"
    and "length d = Capacity" "d ! 0 = HEAD_BYTE" "d ! (Capacity - 1) = TAIL_BYTE"
  shows "\<exists>st'. recv_packet Capacity (Read_bytes d) packet st = Inr (True, packet\<lparr>buffer := d\<rparr>, st')
           \<and> recv_buffer st' = recv_buffer st \<and> recv_buf_len st' = recv_buf_len st
           \<and> st' = st\<lparr>transporter := transporter st @ [Call_read], tmp_buffer := d\<rparr>"
  using assms
  by (simp add: recv_packet_def check_packet_def copy_from_def store_read_def called_def)

theorem recv_packet_fast_path_witness:
  "\<exists>st'. recv_packet 4 (Read_bytes [0xFF, 7, 9, 0x0D]) (FixedPacket_new 4)
               (TransceiverManager_new 4 FIFO 100)
           = Inr (True, \<lparr>buffer = [0xFF, 7, 9, 0x0D]\<rparr>, st')
        \<and> recv_buf_len st' = 0"
proof -
  let ?st = "TransceiverManager_new 4 FIFO 100"
  let ?d = "[0xFF, 7, 9, 0x0D] :: byte list"
  have h: "(0::nat) < 4" "length (tmp_buffer ?st) = 4" "length (buffer (FixedPacket_new 4)) = 4"
    "length ?d = 4" "?d ! 0 = HEAD_BYTE" "?d ! (4 - 1) = TAIL_BYTE"
    by (simp_all add: TransceiverManager_new_def FixedPacket_new_def HEAD_BYTE_def TAIL_BYTE_def)
  from recv_packet_fast_path [OF h] show ?thesis
    by (auto simp add: TransceiverManager_new_def FixedPacket_new_def)
qed




text \<open>
  C5. With the send thread on, under \<open>LIMITED_FIFO\<close> the queue is to stay within
  its bound \<open>N\<close>. With \<open>N = 0\<close> and the queue empty, the test
  \<open>size() >= max_queue_size\<close> holds and \<^verbatim>\<open>pop()\<close> runs on the empty queue.
  (For \<open>N \<ge> 1\<close> and for \<open>LATEST_ONLY\<close> see \<open>send_packet_queue_policy\<close>.)
\<close>

theorem limited_fifo_zero_bound:
  "send_packet 16 wr (FixedPacket_new 16)
     ((TransceiverManager_new 16 LIMITED_FIFO 0)\<lparr>use_realtime_send := True\<rparr>) = Inl Pop_empty"
  by (simp add: send_packet_def TransceiverManager_new_def queue_pop_def)

text \<open>
  C8. With the send thread off, a \<^verbatim>\<open>write\<close> that returns a byte count other
  than \<open>Capacity\<close> makes \<^verbatim>\<open>send_packet\<close> return \<^verbatim>\<open>false\<close> after
  exactly one \<^verbatim>\<open>close\<close> and then one \<^verbatim>\<open>open\<close>; a \<^verbatim>\<open>write\<close> that
  returns \<open>Capacity\<close> makes it return \<^verbatim>\<open>true\<close> with no other call on the
  transport.
\<close>

theorem send_packet_synchronous:
  assumes "\<not> use_realtime_send st"
  shows "(n \<noteq> int Capacity \<longrightarrow>
            send_packet Capacity (Write_returns n) packet st
              = Inr (False, st\<lparr>transporter := transporter st
                      @ [Call_write (take Capacity (buffer packet)), Call_close, Call_open]\<rparr>))
       \<and> send_packet Capacity (Write_returns (int Capacity)) packet st
              = Inr (True, st\<lparr>transporter := transporter st
                      @ [Call_write (take Capacity (buffer packet))]\<rparr>)"
  using assms by (simp add: send_packet_def simple_send_packet_def reconnect_def called_def)

theorem send_packet_synchronous_witness:
  "send_packet 16 (Write_returns 7) (FixedPacket_new 16) (TransceiverManager_new 16 FIFO 100)
     = Inr (False, (TransceiverManager_new 16 FIFO 100)
             \<lparr>transporter := [Call_write (buffer (FixedPacket_new 16)), Call_close, Call_open]\<rparr>)
   \<and> send_packet 16 (Write_returns 16) (FixedPacket_new 16) (TransceiverManager_new 16 FIFO 100)
     = Inr (True, (TransceiverManager_new 16 FIFO 100)
             \<lparr>transporter := [Call_write (buffer (FixedPacket_new 16))]\<rparr>)"
proof -
  have off: "\<not> use_realtime_send (TransceiverManager_new 16 FIFO 100)"
    by (simp add: TransceiverManager_new_def)
  have ne: "(7::int) \<noteq> int 16" by simp
  from send_packet_synchronous [OF off, of 7 16 "FixedPacket_new 16"] ne
  show ?thesis
    by (simp add: TransceiverManager_new_def FixedPacket_new_16)
qed

text \<open>
  C9. \<^verbatim>\<open>get_latest_packet\<close> returns the cached packet (or no value) and leaves
  the whole state, the cache included, as it was; so a second call returns the same, and
  so does a call after a turn of the receive loop whose \<^verbatim>\<open>recv_packet\<close> failed.
\<close>

theorem get_latest_packet_snapshot:
  "get_latest_packet st = (latest_packet st, st)
   \<and> get_latest_packet (snd (get_latest_packet st)) = get_latest_packet st
   \<and> (recv_packet Capacity rd packet st = Inr (False, packet', st') \<longrightarrow>
        realtime_read_step Capacity rd packet st = Inr (packet', st')
        \<and> fst (get_latest_packet st') = fst (get_latest_packet st))"
proof -
  have g: "\<And>s. get_latest_packet s = (latest_packet s, s)"
    by (simp add: get_latest_packet_def)
  show ?thesis
    using recv_packet_latest_packet [of Capacity rd packet st False packet' st']
    by (auto simp add: g realtime_read_step_def)
qed

theorem get_latest_packet_snapshot_witness:
  "\<exists>st'. recv_packet 4 (Read_bytes [0xFF, 1]) (FixedPacket_new 4)
            ((TransceiverManager_new 4 FIFO 100)\<lparr>latest_packet := Some \<lparr>buffer = [0xFF, 1, 2, 0x0D]\<rparr>\<rparr>)
          = Inr (False, FixedPacket_new 4, st')
        \<and> fst (get_latest_packet st') = Some \<lparr>buffer = [0xFF, 1, 2, 0x0D]\<rparr>"
proof -
  let ?st = "(TransceiverManager_new 4 FIFO 100)\<lparr>latest_packet := Some \<lparr>buffer = [0xFF, 1, 2, 0x0D]\<rparr>\<rparr>"
  let ?st' = "?st\<lparr>transporter := [Call_read], tmp_buffer := [0xFF, 1, 0, 0],
                 recv_buffer := [0xFF, 1, 0, 0, 0, 0, 0, 0], recv_buf_len := 2\<rparr>"
  have r: "recv_packet 4 (Read_bytes [0xFF, 1]) (FixedPacket_new 4) ?st
           = Inr (False, FixedPacket_new 4, ?st')"
    by (simp add: recv_eval)
  from get_latest_packet_snapshot [of ?st 4 "Read_bytes [0xFF, 1]" "FixedPacket_new 4" "FixedPacket_new 4" ?st'] r
  have "fst (get_latest_packet ?st') = fst (get_latest_packet ?st)"
    by blast
  moreover have "fst (get_latest_packet ?st) = Some \<lparr>buffer = [0xFF, 1, 2, 0x0D]\<rparr>"
    using get_latest_packet_snapshot [of ?st] by (simp add: TransceiverManager_new_4)
  ultimately show ?thesis
    using r by auto
qed

end
